theory Spec2Isabelle
  imports Main "HOL-Library.Word"
begin

unbundle bit_operations_syntax

section \<open>The BOF argument packer (package workflow, PackBOFArguments)\<close>

text \<open>
  A shallow embedding of the Go packer. A Go function returning \<open>([]byte, error)\<close> is a
  function into a pair of a byte list (the nil slice is the empty list) and an optional
  error (nil is \<open>None\<close>), so that what a failing call returns beside its error is part
  of the model.
\<close>

subsection \<open>Values\<close>

type_synonym byte = "8 word"

text \<open>
  A float64 value: \<open>Finite m e\<close> stands for \<open>m * 2 ^ e\<close> (every finite double has this
  form), beside the infinities and NaN.
\<close>

datatype float64 = Finite int int | PosInf | NegInf | NaN

text \<open>
  The dynamic types a \<open>Value interface{}\<close> is switched on. The signed integers carry
  their mathematical value, the unsigned ones the machine word; \<open>VOther\<close> is a value of
  any other dynamic type, with the name \<open>%T\<close> prints for it.
\<close>

datatype go_value =
    VInt int
  | VInt16 int
  | VInt32 int
  | VUint16 "16 word"
  | VUint32 "32 word"
  | VFloat64 float64
  | VString string
  | VBytes "byte list"
  | VOther string

fun type_name :: "go_value \<Rightarrow> string" where
  "type_name (VInt _) = ''int''"
| "type_name (VInt16 _) = ''int16''"
| "type_name (VInt32 _) = ''int32''"
| "type_name (VUint16 _) = ''uint16''"
| "type_name (VUint32 _) = ''uint32''"
| "type_name (VFloat64 _) = ''float64''"
| "type_name (VString _) = ''string''"
| "type_name (VBytes _) = ''[]uint8''"
| "type_name (VOther n) = n"

record BOFArgument =
  Type :: string
  Value :: go_value

subsection \<open>Errors\<close>

text \<open>
  \<open>strconv.ParseUint\<close> fails with \<open>ErrSyntax\<close> or \<open>ErrRange\<close>, \<open>hex.DecodeString\<close>
  with \<open>InvalidByteError\<close> or \<open>ErrLength\<close>. \<open>InvalidType t n\<close> is the packers'
  \<open>"invalid type for t: %T"\<close>. The two errors of \<open>PackBOFArguments\<close> are
  \<open>"unsupported argument type: %s"\<close> and \<open>"failed to pack %s argument: %w"\<close>; they are
  named after the kinds the specification gives them.
\<close>

datatype num_error = ErrSyntax | ErrRange

datatype hex_error = InvalidByteError byte | ErrLength

datatype coerce_error =
    InvalidType string string
  | NumError num_error
  | HexError hex_error

datatype pack_error =
    UnsupportedType string
  | TypeMismatch string coerce_error

subsection \<open>Conversions of the language\<close>

text \<open>\<open>[]byte(s)\<close> and \<open>string(b)\<close>.\<close>

definition bytes_of_string :: "string \<Rightarrow> byte list" where
  "bytes_of_string s = map (\<lambda>c. of_nat (of_char c)) s"

definition string_of_bytes :: "byte list \<Rightarrow> string" where
  "string_of_bytes b = map (\<lambda>w. char_of (unat w)) b"

text \<open>
  Converting a float64 to an unsigned integer discards the fraction (truncation towards
  zero). When the target type cannot represent the truncated value, the conversion
  succeeds and its result depends on the implementation: the embedding takes that result
  as a parameter.
\<close>

record impl =
  uint32_out_of_range :: "float64 \<Rightarrow> 32 word"
  uint16_out_of_range :: "float64 \<Rightarrow> 16 word"

fun float64_trunc :: "float64 \<Rightarrow> int option" where
  "float64_trunc (Finite m e) =
     Some (if 0 \<le> e then m * 2 ^ nat e else sgn m * (\<bar>m\<bar> div 2 ^ nat (- e)))"
| "float64_trunc PosInf = None"
| "float64_trunc NegInf = None"
| "float64_trunc NaN = None"

definition float64_to_uint32 :: "impl \<Rightarrow> float64 \<Rightarrow> 32 word" where
  "float64_to_uint32 cv f =
     (case float64_trunc f of
        Some t \<Rightarrow> if 0 \<le> t \<and> t < 2 ^ 32 then word_of_int t else uint32_out_of_range cv f
      | None \<Rightarrow> uint32_out_of_range cv f)"

definition float64_to_uint16 :: "impl \<Rightarrow> float64 \<Rightarrow> 16 word" where
  "float64_to_uint16 cv f =
     (case float64_trunc f of
        Some t \<Rightarrow> if 0 \<le> t \<and> t < 2 ^ 16 then word_of_int t else uint16_out_of_range cv f
      | None \<Rightarrow> uint16_out_of_range cv f)"

text \<open>An implementation whose out-of-range conversions give zero, for concrete runs.\<close>

definition zero_impl :: impl where
  "zero_impl = \<lparr>uint32_out_of_range = (\<lambda>_. 0), uint16_out_of_range = (\<lambda>_. 0)\<rparr>"

subsection \<open>encoding/binary\<close>

text \<open>
  \<open>PutUint32\<close> and \<open>PutUint16\<close> store into the first bytes of the slice they are given.
  The packer only calls them on slices that are long enough, so the stores are list
  updates.
\<close>

definition BigEndian_PutUint32 :: "byte list \<Rightarrow> 32 word \<Rightarrow> byte list" where
  "BigEndian_PutUint32 b v =
     b[0 := ucast (drop_bit 24 v), 1 := ucast (drop_bit 16 v),
       2 := ucast (drop_bit 8 v), 3 := ucast v]"

definition BigEndian_PutUint16 :: "byte list \<Rightarrow> 16 word \<Rightarrow> byte list" where
  "BigEndian_PutUint16 b v = b[0 := ucast (drop_bit 8 v), 1 := ucast v]"

text \<open>\<open>LittleEndian.PutUint16(b[off:], v)\<close>: the slice shares the array of \<open>b\<close>.\<close>

definition LittleEndian_PutUint16_at :: "byte list \<Rightarrow> nat \<Rightarrow> 16 word \<Rightarrow> byte list" where
  "LittleEndian_PutUint16_at b off v = b[off := ucast v, off + 1 := ucast (drop_bit 8 v)]"

text \<open>\<open>make([]byte, n)\<close>.\<close>

definition make_bytes :: "nat \<Rightarrow> byte list" where
  "make_bytes n = replicate n 0"

subsection \<open>strconv.ParseUint, base 10\<close>

text \<open>
  The accumulator \<open>n\<close> is a uint64: its arithmetic is written modulo \<open>2 ^ 64\<close>.
  \<open>cutoff\<close> is \<open>maxUint64 / 10 + 1\<close> and \<open>maxVal\<close> is \<open>1 << bitSize - 1\<close>. The digit
  is the byte minus \<open>'0'\<close>; a letter gives a digit of at least 10, which base 10 refuses
  as any other byte.
\<close>

definition cutoff10 :: nat where
  "cutoff10 = (2 ^ 64 - 1) div 10 + 1"

fun ParseUint_loop :: "nat \<Rightarrow> byte list \<Rightarrow> nat \<Rightarrow> nat \<times> num_error option" where
  "ParseUint_loop maxVal [] n = (n, None)"
| "ParseUint_loop maxVal (c # cs) n =
     (if 0x30 \<le> c \<and> c \<le> 0x39 then
        (let d = unat (c - 0x30) in
         if n \<ge> cutoff10 then (maxVal, Some ErrRange)
         else (let n' = (n * 10) mod 2 ^ 64; n1 = (n' + d) mod 2 ^ 64 in
               if n1 < n' \<or> n1 > maxVal then (maxVal, Some ErrRange)
               else ParseUint_loop maxVal cs n1))
      else (0, Some ErrSyntax))"

definition ParseUint10 :: "string \<Rightarrow> nat \<Rightarrow> nat \<times> num_error option" where
  "ParseUint10 s bitSize =
     (if s = [] then (0, Some ErrSyntax)
      else ParseUint_loop (2 ^ bitSize - 1) (bytes_of_string s) 0)"

subsection \<open>encoding/hex\<close>

definition hextable :: "byte list" where
  "hextable = bytes_of_string ''0123456789abcdef''"

fun hex_Encode :: "byte list \<Rightarrow> byte list" where
  "hex_Encode [] = []"
| "hex_Encode (v # src) =
     hextable ! unat (drop_bit 4 v) # hextable ! unat (v AND 0x0f) # hex_Encode src"

definition hex_EncodeToString :: "byte list \<Rightarrow> string" where
  "hex_EncodeToString src = string_of_bytes (hex_Encode src)"

text \<open>The reverse table: the value of a hexadecimal digit, \<open>0xff\<close> for any other byte.\<close>

definition reverseHexTable :: "byte \<Rightarrow> byte" where
  "reverseHexTable c =
     (if 0x30 \<le> c \<and> c \<le> 0x39 then c - 0x30
      else if 0x61 \<le> c \<and> c \<le> 0x66 then c - 0x61 + 10
      else if 0x41 \<le> c \<and> c \<le> 0x46 then c - 0x41 + 10
      else 0xff)"

text \<open>
  \<open>Decode\<close> returns the bytes decoded before the first error together with the error:
  \<open>DecodeString\<close> returns \<open>dst[:n], err\<close>.
\<close>

fun hex_Decode :: "byte list \<Rightarrow> byte list \<times> hex_error option" where
  "hex_Decode [] = ([], None)"
| "hex_Decode [p] =
     (if reverseHexTable p > 0x0f then ([], Some (InvalidByteError p))
      else ([], Some ErrLength))"
| "hex_Decode (p # q # src) =
     (let a = reverseHexTable p; b = reverseHexTable q in
      if a > 0x0f then ([], Some (InvalidByteError p))
      else if b > 0x0f then ([], Some (InvalidByteError q))
      else (case hex_Decode src of (dst, err) \<Rightarrow> ((push_bit 4 a OR b) # dst, err)))"

definition hex_DecodeString :: "string \<Rightarrow> byte list \<times> hex_error option" where
  "hex_DecodeString s = hex_Decode (bytes_of_string s)"

subsection \<open>Runes: the conversion to []rune and unicode/utf16\<close>

text \<open>
  A rune is an int32, carried as its mathematical value. \<open>decoderune\<close> is the decoder
  of the runtime for a string that starts with a byte of at least \<open>0x80\<close>: it returns
  the rune and the number of bytes it took, \<open>U+FFFD\<close> and one byte for an invalid
  sequence.
\<close>

definition runeError :: int where "runeError = 0xFFFD"
definition maxRune :: int where "maxRune = 0x10FFFF"

definition is_cont :: "byte \<Rightarrow> bool" where
  "is_cont b = (0x80 \<le> b \<and> b \<le> 0xBF)"

fun decoderune :: "byte list \<Rightarrow> int \<times> nat" where
  "decoderune [] = (runeError, 1)"
| "decoderune (s0 # s) =
     (if 0xC0 \<le> s0 \<and> s0 < 0xE0 then
        (case s of
           s1 # _ \<Rightarrow>
             (let r = push_bit 6 (uint (s0 AND 0x1F)) OR uint (s1 AND 0x3F) in
              if is_cont s1 \<and> 0x7F < r then (r, 2) else (runeError, 1))
         | _ \<Rightarrow> (runeError, 1))
      else if 0xE0 \<le> s0 \<and> s0 < 0xF0 then
        (case s of
           s1 # s2 # _ \<Rightarrow>
             (let r = push_bit 12 (uint (s0 AND 0x0F)) OR push_bit 6 (uint (s1 AND 0x3F))
                      OR uint (s2 AND 0x3F) in
              if is_cont s1 \<and> is_cont s2 \<and> 0x7FF < r \<and> \<not> (0xD800 \<le> r \<and> r \<le> 0xDFFF)
              then (r, 3) else (runeError, 1))
         | _ \<Rightarrow> (runeError, 1))
      else if 0xF0 \<le> s0 \<and> s0 < 0xF8 then
        (case s of
           s1 # s2 # s3 # _ \<Rightarrow>
             (let r = push_bit 18 (uint (s0 AND 0x07)) OR push_bit 12 (uint (s1 AND 0x3F))
                      OR push_bit 6 (uint (s2 AND 0x3F)) OR uint (s3 AND 0x3F) in
              if is_cont s1 \<and> is_cont s2 \<and> is_cont s3 \<and> 0xFFFF < r \<and> r \<le> maxRune
              then (r, 4) else (runeError, 1))
         | _ \<Rightarrow> (runeError, 1))
      else (runeError, 1))"

text \<open>\<open>[]rune(str)\<close>: a byte below \<open>0x80\<close> is its own rune.\<close>

fun stringtoslicerune :: "byte list \<Rightarrow> int list" where
  "stringtoslicerune [] = []"
| "stringtoslicerune (c # s) =
     (if c < 0x80 then uint c # stringtoslicerune s
      else (case decoderune (c # s) of
              (r, w) \<Rightarrow> r # stringtoslicerune (drop (w - 1) s)))"

definition utf16_EncodeRune :: "int \<Rightarrow> int \<times> int" where
  "utf16_EncodeRune r =
     (if r < 0x10000 \<or> r > maxRune then (runeError, runeError)
      else (let r' = r - 0x10000 in
            (0xd800 + (drop_bit 10 r' AND 0x3ff), 0xdc00 + (r' AND 0x3ff))))"

fun utf16_Encode :: "int list \<Rightarrow> 16 word list" where
  "utf16_Encode [] = []"
| "utf16_Encode (v # s) =
     (if (0 \<le> v \<and> v < 0xd800) \<or> (0xe000 \<le> v \<and> v < 0x10000) then
        word_of_int v # utf16_Encode s
      else if 0x10000 \<le> v \<and> v \<le> maxRune then
        (case utf16_EncodeRune v of
           (r1, r2) \<Rightarrow> word_of_int r1 # word_of_int r2 # utf16_Encode s)
      else word_of_int runeError # utf16_Encode s)"

subsection \<open>The packers of one argument\<close>

definition packBinaryWithPrefix :: "go_value \<Rightarrow> byte list \<times> coerce_error option" where
  "packBinaryWithPrefix v =
     (case (case v of
              VString val \<Rightarrow> Some val
            | VBytes val \<Rightarrow> Some (hex_EncodeToString val)
            | _ \<Rightarrow> None) of
        None \<Rightarrow> ([], Some (InvalidType ''binary'' (type_name v)))
      | Some hexString \<Rightarrow>
          (case hex_DecodeString hexString of
             (hexData, Some err) \<Rightarrow> ([], Some (HexError err))
           | (hexData, None) \<Rightarrow>
               (BigEndian_PutUint32 (make_bytes 4) (of_nat (length hexData)) @ hexData,
                None)))"

definition packInt :: "impl \<Rightarrow> go_value \<Rightarrow> byte list \<times> coerce_error option" where
  "packInt cv v =
     (case (case v of
              VInt val \<Rightarrow> (Some (word_of_int val), None)
            | VInt32 val \<Rightarrow> (Some (word_of_int val), None)
            | VUint32 val \<Rightarrow> (Some val, None)
            | VFloat64 val \<Rightarrow> (Some (float64_to_uint32 cv val), None)
            | VString val \<Rightarrow>
                (case ParseUint10 val 32 of
                   (parsed, Some err) \<Rightarrow> (None, Some (NumError err))
                 | (parsed, None) \<Rightarrow> (Some (of_nat parsed), None))
            | _ \<Rightarrow> (None, Some (InvalidType ''int'' (type_name v)))) of
        (Some i, _) \<Rightarrow> (BigEndian_PutUint32 (make_bytes 4) i, None)
      | (None, err) \<Rightarrow> ([], err))"

definition packShort :: "impl \<Rightarrow> go_value \<Rightarrow> byte list \<times> coerce_error option" where
  "packShort cv v =
     (case (case v of
              VInt val \<Rightarrow> (Some (word_of_int val), None)
            | VInt16 val \<Rightarrow> (Some (word_of_int val), None)
            | VUint16 val \<Rightarrow> (Some val, None)
            | VFloat64 val \<Rightarrow> (Some (float64_to_uint16 cv val), None)
            | VString val \<Rightarrow>
                (case ParseUint10 val 16 of
                   (parsed, Some err) \<Rightarrow> (None, Some (NumError err))
                 | (parsed, None) \<Rightarrow> (Some (of_nat parsed), None))
            | _ \<Rightarrow> (None, Some (InvalidType ''short'' (type_name v)))) of
        (Some i, _) \<Rightarrow> (BigEndian_PutUint16 (make_bytes 2) i, None)
      | (None, err) \<Rightarrow> ([], err))"

definition packStringWithPrefix :: "go_value \<Rightarrow> byte list \<times> coerce_error option" where
  "packStringWithPrefix v =
     (case v of
        VString str \<Rightarrow>
          (let strData = bytes_of_string str @ [0] in
           (BigEndian_PutUint32 (make_bytes 4) (of_nat (length strData)) @ strData, None))
      | _ \<Rightarrow> ([], Some (InvalidType ''string'' (type_name v))))"

text \<open>The loop of \<open>packWideStringWithPrefix\<close> over the code units, from index \<open>i\<close>.\<close>

fun put_units :: "16 word list \<Rightarrow> nat \<Rightarrow> byte list \<Rightarrow> byte list" where
  "put_units [] i wstrData = wstrData"
| "put_units (utf16Char # rest) i wstrData =
     put_units rest (i + 1) (LittleEndian_PutUint16_at wstrData (i * 2) utf16Char)"

definition packWideStringWithPrefix :: "go_value \<Rightarrow> byte list \<times> coerce_error option" where
  "packWideStringWithPrefix v =
     (case v of
        VString str \<Rightarrow>
          (let runes = stringtoslicerune (bytes_of_string str);
               utf16Encoded = utf16_Encode runes;
               wstrData = make_bytes ((length utf16Encoded + 1) * 2);
               wstrData = put_units utf16Encoded 0 wstrData;
               wstrData = LittleEndian_PutUint16_at wstrData (length utf16Encoded * 2) 0
           in (BigEndian_PutUint32 (make_bytes 4) (of_nat (length wstrData)) @ wstrData,
               None))
      | _ \<Rightarrow> ([], Some (InvalidType ''wstring'' (type_name v))))"

subsection \<open>PackBOFArguments\<close>

text \<open>The switch on the type tag; \<open>None\<close> is its default branch.\<close>

definition pack_switch ::
  "impl \<Rightarrow> BOFArgument \<Rightarrow> (byte list \<times> coerce_error option) option" where
  "pack_switch cv arg =
     (if Type arg = ''binary'' \<or> Type arg = ''b'' then
        Some (packBinaryWithPrefix (Value arg))
      else if Type arg = ''int'' \<or> Type arg = ''i'' then Some (packInt cv (Value arg))
      else if Type arg = ''short'' \<or> Type arg = ''s'' then Some (packShort cv (Value arg))
      else if Type arg = ''string'' \<or> Type arg = ''z'' then
        Some (packStringWithPrefix (Value arg))
      else if Type arg = ''wstring'' \<or> Type arg = ''Z'' then
        Some (packWideStringWithPrefix (Value arg))
      else None)"

text \<open>The loop over the arguments, with the buffer built so far.\<close>

fun pack_loop :: "impl \<Rightarrow> BOFArgument list \<Rightarrow> byte list \<Rightarrow> byte list \<times> pack_error option" where
  "pack_loop cv [] buff = (buff, None)"
| "pack_loop cv (arg # args) buff =
     (case pack_switch cv arg of
        None \<Rightarrow> ([], Some (UnsupportedType (Type arg)))
      | Some (data, Some err) \<Rightarrow> ([], Some (TypeMismatch (Type arg) err))
      | Some (data, None) \<Rightarrow> pack_loop cv args (buff @ data))"

definition PackBOFArguments :: "impl \<Rightarrow> BOFArgument list \<Rightarrow> byte list \<times> pack_error option" where
  "PackBOFArguments cv args =
     (if length args = 0 then ([], None) else pack_loop cv args [])"

section \<open>The vocabulary of the specification\<close>

text \<open>
  Big-endian and little-endian byte strings, written as the specification describes
  them, and the numbers they denote.
\<close>

definition be32 :: "32 word \<Rightarrow> byte list" where
  "be32 v = [ucast (drop_bit 24 v), ucast (drop_bit 16 v), ucast (drop_bit 8 v), ucast v]"

definition be16 :: "16 word \<Rightarrow> byte list" where
  "be16 v = [ucast (drop_bit 8 v), ucast v]"

definition le16 :: "16 word \<Rightarrow> byte list" where
  "le16 v = [ucast v, ucast (drop_bit 8 v)]"

definition be_value :: "byte list \<Rightarrow> nat" where
  "be_value bs = foldl (\<lambda>a b. a * 256 + unat b) 0 bs"

definition le_value :: "byte list \<Rightarrow> nat" where
  "le_value bs = be_value (rev bs)"

text \<open>The type tags the switch of \<open>PackBOFArguments\<close> recognizes.\<close>

definition recognized :: "string \<Rightarrow> bool" where
  "recognized t =
     (t \<in> set [''binary'', ''b'', ''int'', ''i'', ''short'', ''s'', ''string'', ''z'',
               ''wstring'', ''Z''])"

text \<open>The UTF-16 code units of a string: the conversion to runes, then \<open>utf16.Encode\<close>.\<close>

definition utf16_units :: "string \<Rightarrow> 16 word list" where
  "utf16_units s = utf16_Encode (stringtoslicerune (bytes_of_string s))"



text \<open>
  Two spellings of a tag give the same outcome on a value: the same bytes when packing
  succeeds; when it fails, no bytes and the same cause, under an error that names the tag
  as it was spelled.
\<close>

definition same_outcome :: "impl \<Rightarrow> string \<Rightarrow> string \<Rightarrow> go_value \<Rightarrow> bool" where
  "same_outcome cv short long v =
     (case (PackBOFArguments cv [\<lparr>Type = short, Value = v\<rparr>],
            PackBOFArguments cv [\<lparr>Type = long, Value = v\<rparr>]) of
        ((bs, None), (bl, None)) \<Rightarrow> bs = bl
      | ((bs, Some (TypeMismatch t1 e1)), (bl, Some (TypeMismatch t2 e2))) \<Rightarrow>
          bs = [] \<and> bl = [] \<and> t1 = short \<and> t2 = long \<and> e1 = e2
      | _ \<Rightarrow> False)"

text \<open>
  Decimal strings: the ASCII digits, the number a string of digits denotes, and the
  strings that are unsigned decimal numbers of at most \<open>w\<close> bits.
\<close>

definition is_digit :: "char \<Rightarrow> bool" where
  "is_digit c = (48 \<le> (of_char c :: nat) \<and> (of_char c :: nat) \<le> 57)"

definition digit_value :: "char \<Rightarrow> nat" where
  "digit_value c = of_char c - 48"

definition dec_from :: "nat \<Rightarrow> string \<Rightarrow> nat" where
  "dec_from n s = foldl (\<lambda>a c. a * 10 + digit_value c) n s"

definition dec_value :: "string \<Rightarrow> nat" where
  "dec_value s = dec_from 0 s"

definition decimal_uint :: "nat \<Rightarrow> string \<Rightarrow> bool" where
  "decimal_uint w s = (s \<noteq> [] \<and> list_all is_digit s \<and> dec_value s < 2 ^ w)"

text \<open>Packing a single argument, and the tags of the two numeric types.\<close>

definition pack_one :: "impl \<Rightarrow> string \<Rightarrow> go_value \<Rightarrow> byte list \<times> pack_error option" where
  "pack_one cv t v = PackBOFArguments cv [\<lparr>Type = t, Value = v\<rparr>]"

definition int_tag :: "string \<Rightarrow> bool" where
  "int_tag t = (t = ''int'' \<or> t = ''i'')"

definition short_tag :: "string \<Rightarrow> bool" where
  "short_tag t = (t = ''short'' \<or> t = ''s'')"

text \<open>
  Hexadecimal strings: an even number of digits \<open>0-9\<close>, \<open>a-f\<close>, \<open>A-F\<close>. The tags of
  the binary and the wide-string types.
\<close>

definition is_hex_digit :: "char \<Rightarrow> bool" where
  "is_hex_digit c =
     (let n = (of_char c :: nat) in
      (48 \<le> n \<and> n \<le> 57) \<or> (97 \<le> n \<and> n \<le> 102) \<or> (65 \<le> n \<and> n \<le> 70))"

definition hex_string :: "string \<Rightarrow> bool" where
  "hex_string s = (even (length s) \<and> list_all is_hex_digit s)"

definition binary_tag :: "string \<Rightarrow> bool" where
  "binary_tag t = (t = ''binary'' \<or> t = ''b'')"

definition wide_tag :: "string \<Rightarrow> bool" where
  "wide_tag t = (t = ''wstring'' \<or> t = ''Z'')"

text \<open>The string \<open>C:\Windows\<close> of the packer's tests.\<close>

definition c_windows :: string where
  "c_windows = ''C:'' @ [CHR 0x5C] @ ''Windows''"

section \<open>Bytes and their values\<close>

lemma unat_byte_low: "unat (ucast v :: byte) = unat v mod 256"
  for v :: "'a::len word"
  by (simp add: unsigned_ucast_eq take_bit_eq_mod)

lemma unat_shift: "unat (drop_bit k v) = unat v div 2 ^ k"
  for v :: "'a::len word"
  by (simp add: unat_drop_bit_eq) (simp add: drop_bit_eq_div)

lemma split16: "n < 65536 \<Longrightarrow> (n div 256) mod 256 * 256 + n mod 256 = n" for n :: nat
  by simp

lemma split32:
  fixes n :: nat
  assumes "n < 4294967296"
  shows "((n div 16777216 * 256 + (n div 65536) mod 256) * 256
     + (n div 256) mod 256) * 256 + n mod 256 = n"
proof -
  define a where "a = n div 256"
  define b where "b = a div 256"
  define c where "c = b div 256"
  have b: "n div 65536 = b"
    using div_mult2_eq [of n 256 256] by (simp add: a_def b_def)
  have c: "n div 16777216 = c"
    using div_mult2_eq [of n 65536 256] b by (simp add: c_def)
  have 1: "c * 256 + b mod 256 = b" by (simp add: c_def)
  have 2: "b * 256 + a mod 256 = a" by (simp add: b_def)
  have 3: "a * 256 + n mod 256 = n" by (simp add: a_def)
  show ?thesis
    unfolding b c a_def [symmetric] 1 2 3 ..
qed

lemma be_value_be32: "be_value (be32 v) = unat v"
proof -
  have less: "unat v < 4294967296" using unsigned_less [of v] by simp
  then have top: "unat v div 16777216 mod 256 = unat v div 16777216" by simp
  have "((unat v div 16777216 * 256 + (unat v div 65536) mod 256) * 256
     + (unat v div 256) mod 256) * 256 + unat v mod 256 = unat v"
    using less by (rule split32)
  then show ?thesis
    by (simp add: be_value_def be32_def unat_byte_low unat_shift top)
qed

lemma be_value_be16: "be_value (be16 v) = unat v"
proof -
  have "unat v < 65536" using unsigned_less [of v] by simp
  then have "(unat v div 256) mod 256 * 256 + unat v mod 256 = unat v"
    by (rule split16)
  then show ?thesis
    by (simp add: be_value_def be16_def unat_byte_low unat_shift)
qed

lemma le_value_le16: "le_value (le16 v) = unat v"
proof -
  have "unat v < 65536" using unsigned_less [of v] by simp
  then have "(unat v div 256) mod 256 * 256 + unat v mod 256 = unat v"
    by (rule split16)
  then show ?thesis
    by (simp add: le_value_def be_value_def le16_def unat_byte_low unat_shift)
qed

lemma PutUint32_make: "BigEndian_PutUint32 (make_bytes 4) v = be32 v"
  by (simp add: BigEndian_PutUint32_def make_bytes_def numeral_eq_Suc be32_def)

lemma PutUint16_make: "BigEndian_PutUint16 (make_bytes 2) v = be16 v"
  by (simp add: BigEndian_PutUint16_def make_bytes_def numeral_eq_Suc be16_def)

lemma update_at:
  "off < length b \<Longrightarrow> b[off := x] = take off b @ x # drop (Suc off) b"
  by (simp add: upd_conv_take_nth_drop)

lemma put_at:
  assumes "off + 2 \<le> length b"
  shows "LittleEndian_PutUint16_at b off v = take off b @ le16 v @ drop (off + 2) b"
proof -
  have "b[off := ucast v] = take off b @ ucast v # drop (Suc off) b"
    using assms by (simp add: update_at)
  moreover have "(take off b @ ucast v # drop (Suc off) b)[off + 1 := ucast (drop_bit 8 v)]
      = take off b @ ucast v # (drop (Suc off) b)[0 := ucast (drop_bit 8 v)]"
    using assms by (simp add: list_update_append)
  moreover have "(drop (Suc off) b)[0 := ucast (drop_bit 8 v)]
      = ucast (drop_bit 8 v) # drop (off + 2) b"
    using assms by (simp add: update_at)
  ultimately show ?thesis
    by (simp add: LittleEndian_PutUint16_at_def le16_def)
qed

lemma put_units_eq:
  "2 * (i + length us) \<le> length b \<Longrightarrow>
   put_units us i b = take (2 * i) b @ concat (map le16 us) @ drop (2 * (i + length us)) b"
proof (induction us arbitrary: i b)
  case Nil
  then show ?case by simp
next
  case (Cons u us)
  let ?b = "LittleEndian_PutUint16_at b (i * 2) u"
  have len: "length ?b = length b" by (simp add: LittleEndian_PutUint16_at_def)
  have b': "?b = take (2 * i) b @ le16 u @ drop (2 * i + 2) b"
    using Cons.prems by (simp add: put_at mult.commute)
  have l2: "length (le16 u) = 2" by (simp add: le16_def)
  have "put_units (u # us) i b = put_units us (i + 1) ?b" by simp
  also have "\<dots> = take (2 * (i + 1)) ?b @ concat (map le16 us) @ drop (2 * (i + 1 + length us)) ?b"
    using Cons.prems len by (intro Cons.IH) simp
  also have "take (2 * (i + 1)) ?b = take (2 * i) b @ le16 u"
    using Cons.prems by (simp add: b' l2 min_def)
  also have "drop (2 * (i + 1 + length us)) ?b = drop (2 * (i + length (u # us))) b"
    using Cons.prems by (simp add: b' l2 min_def ac_simps)
  finally show ?case by simp
qed

section \<open>The packers of strings\<close>

lemma packString_eq:
  "packStringWithPrefix (VString s) =
     (be32 (of_nat (length s + 1)) @ bytes_of_string s @ [0], None)"
  by (simp add: packStringWithPrefix_def PutUint32_make bytes_of_string_def)

lemma wide_data:
  "LittleEndian_PutUint16_at (put_units us 0 (make_bytes ((length us + 1) * 2)))
     (length us * 2) 0 = concat (map le16 us) @ [0, 0]"
proof -
  let ?b = "make_bytes ((length us + 1) * 2)"
  have len: "length ?b = 2 * length us + 2" by (simp add: make_bytes_def)
  have lc: "length (concat (map le16 us)) = 2 * length us"
    by (induction us) (simp_all add: le16_def)
  have pu: "put_units us 0 ?b = concat (map le16 us) @ drop (2 * length us) ?b"
    using put_units_eq [of 0 us ?b] len by simp
  have "drop (2 * length us) ?b = replicate ((length us + 1) * 2 - 2 * length us) 0"
    unfolding make_bytes_def by (rule drop_replicate)
  also have "(length us + 1) * 2 - 2 * length us = 2" by simp
  finally have dr: "drop (2 * length us) ?b = [0, 0]"
    by (simp add: numeral_2_eq_2)
  have l0: "le16 0 = [0, 0]" by (simp add: le16_def)
  have full: "put_units us 0 ?b = concat (map le16 us) @ [0, 0]"
    by (simp only: pu dr)
  have "LittleEndian_PutUint16_at (concat (map le16 us) @ [0, 0]) (length us * 2) 0
      = take (length us * 2) (concat (map le16 us) @ [0, 0]) @ le16 0
        @ drop (length us * 2 + 2) (concat (map le16 us) @ [0, 0])"
    by (rule put_at) (simp add: lc)
  also have "\<dots> = concat (map le16 us) @ [0, 0]"
    by (simp add: lc l0 mult.commute)
  finally show ?thesis by (simp only: full)
qed

lemma packWide_eq:
  "packWideStringWithPrefix (VString s) =
     (be32 (of_nat (2 * (length (utf16_units s) + 1))) @ concat (map le16 (utf16_units s)) @ [0, 0],
      None)"
proof -
  have lc: "length (concat (map le16 us)) = 2 * length us" for us
    by (induction us) (simp_all add: le16_def)
  have "packWideStringWithPrefix (VString s) =
     (be32 (of_nat (length (concat (map le16 (utf16_units s)) @ [0, 0])))
        @ concat (map le16 (utf16_units s)) @ [0, 0], None)"
    by (simp only: packWideStringWithPrefix_def go_value.case Let_def wide_data
          PutUint32_make utf16_units_def)
  then show ?thesis by (simp add: lc)
qed

section \<open>The loop over the arguments\<close>

lemma pack_switch_None: "(pack_switch cv a = None) = (\<not> recognized (Type a))"
  by (simp add: pack_switch_def recognized_def)

lemma pack_single:
  "PackBOFArguments cv [a] =
     (case pack_switch cv a of
        None \<Rightarrow> ([], Some (UnsupportedType (Type a)))
      | Some (d, Some e) \<Rightarrow> ([], Some (TypeMismatch (Type a) e))
      | Some (d, None) \<Rightarrow> (d, None))"
  by (simp add: PackBOFArguments_def split: option.splits prod.splits)

lemma pack_loop_error: "snd (pack_loop cv args buff) \<noteq> None \<Longrightarrow> fst (pack_loop cv args buff) = []"
  by (induction args arbitrary: buff) (auto split: option.splits prod.splits)

lemma pack_loop_ok:
  "(\<forall>a\<in>set args. snd (PackBOFArguments cv [a]) = None) \<Longrightarrow>
   pack_loop cv args buff = (buff @ concat (map (\<lambda>a. fst (PackBOFArguments cv [a])) args), None)"
proof (induction args arbitrary: buff)
  case Nil
  then show ?case by simp
next
  case (Cons a args)
  from Cons.prems have a: "snd (PackBOFArguments cv [a]) = None" by simp
  then obtain d where d: "pack_switch cv a = Some (d, None)"
    by (auto simp: pack_single split: option.splits prod.splits)
  have "pack_loop cv (a # args) buff = pack_loop cv args (buff @ d)"
    using d by simp
  also have "\<dots> = ((buff @ d) @ concat (map (\<lambda>a. fst (PackBOFArguments cv [a])) args), None)"
    using Cons.prems by (intro Cons.IH) simp
  finally show ?case using d by (simp add: pack_single)
qed

lemma pack_loop_first_failure:
  "(\<forall>p\<in>set pre. snd (PackBOFArguments cv [p]) = None) \<Longrightarrow>
   snd (PackBOFArguments cv [a]) = Some e \<Longrightarrow>
   pack_loop cv (pre @ a # post) buff = ([], Some e)"
proof (induction pre arbitrary: buff)
  case Nil
  then show ?case by (auto simp: pack_single split: option.splits prod.splits)
next
  case (Cons p pre)
  from Cons.prems have "snd (PackBOFArguments cv [p]) = None" by simp
  then obtain d where d: "pack_switch cv p = Some (d, None)"
    by (auto simp: pack_single split: option.splits prod.splits)
  show ?case using d Cons by simp
qed

lemma pack_loop_success_all:
  "snd (pack_loop cv args buff) = None \<Longrightarrow> \<forall>a\<in>set args. snd (PackBOFArguments cv [a]) = None"
proof (induction args arbitrary: buff)
  case Nil
  then show ?case by simp
next
  case (Cons x args)
  from Cons.prems obtain d where d: "pack_switch cv x = Some (d, None)"
    by (auto split: option.splits prod.splits)
  then have "snd (pack_loop cv args (buff @ d)) = None"
    using Cons.prems by simp
  then have "\<forall>a\<in>set args. snd (PackBOFArguments cv [a]) = None"
    by (rule Cons.IH)
  moreover have "snd (PackBOFArguments cv [x]) = None"
    using d by (simp add: pack_single)
  ultimately show ?case by simp
qed

lemma Pack_loop: "PackBOFArguments cv args = pack_loop cv args []"
  by (cases args) (simp_all add: PackBOFArguments_def)

section \<open>Claims\<close>

lemma units_c_windows:
  "utf16_units c_windows = [0x43, 0x3A, 0x5C, 0x57, 0x69, 0x6E, 0x64, 0x6F, 0x77, 0x73]"
  by (simp add: utf16_units_def c_windows_def bytes_of_string_def)

text \<open>
  C1. Packing the narrow string \<open>C:\Windows\<close> and the short 0 gives the length 11
  in four big-endian bytes, the ten ASCII bytes of the string, one zero byte, then two
  zero bytes. Packing the wide string \<open>C:\Windows\<close> and the int 12112 gives the length
  22 in four big-endian bytes, the ten code units low byte first, two zero bytes, then
  \<open>00 00 2F 50\<close>.
\<close>

theorem pack_test_vectors:
  "PackBOFArguments cv
     [\<lparr>Type = ''string'', Value = VString c_windows\<rparr>, \<lparr>Type = ''short'', Value = VInt 0\<rparr>]
   = ([0, 0, 0, 0x0B] @ [0x43, 0x3A, 0x5C, 0x57, 0x69, 0x6E, 0x64, 0x6F, 0x77, 0x73] @ [0]
        @ [0, 0], None)
   \<and> PackBOFArguments cv
     [\<lparr>Type = ''wstring'', Value = VString c_windows\<rparr>, \<lparr>Type = ''int'', Value = VInt 12112\<rparr>]
   = ([0, 0, 0, 0x16]
        @ [0x43, 0, 0x3A, 0, 0x5C, 0, 0x57, 0, 0x69, 0, 0x6E, 0, 0x64, 0, 0x6F, 0, 0x77, 0,
           0x73, 0]
        @ [0, 0] @ [0, 0, 0x2F, 0x50], None)"
proof -
  have n: "packStringWithPrefix (VString c_windows)
      = ([0, 0, 0, 0x0B, 0x43, 0x3A, 0x5C, 0x57, 0x69, 0x6E, 0x64, 0x6F, 0x77, 0x73, 0], None)"
    by (simp add: packString_eq be32_def c_windows_def bytes_of_string_def)
  have w: "packWideStringWithPrefix (VString c_windows)
      = ([0, 0, 0, 0x16, 0x43, 0, 0x3A, 0, 0x5C, 0, 0x57, 0, 0x69, 0, 0x6E, 0, 0x64, 0,
          0x6F, 0, 0x77, 0, 0x73, 0, 0, 0], None)"
    by (simp add: packWide_eq units_c_windows be32_def le16_def)
  have s: "packShort cv (VInt 0) = ([0, 0], None)"
    by (simp add: packShort_def PutUint16_make be16_def)
  have i: "packInt cv (VInt 12112) = ([0, 0, 0x2F, 0x50], None)"
    by (simp add: packInt_def PutUint32_make be32_def drop_bit_eq_div)
  show ?thesis
    by (simp add: Pack_loop pack_switch_def n w s i)
qed

text \<open>
  C8. Packing the empty argument list returns the empty buffer and no error.
\<close>

theorem pack_empty: "PackBOFArguments cv [] = ([], None)"
  by (simp add: PackBOFArguments_def)

text \<open>
  C2. When two arguments pack, the list of both packs to the bytes of the first followed
  by the bytes of the second. When a list packs, each of its arguments packs alone and the
  buffer is the concatenation of their encodings, in order.
\<close>

theorem pack_concat:
  "(snd (PackBOFArguments cv [a]) = None \<and> snd (PackBOFArguments cv [b]) = None \<longrightarrow>
      PackBOFArguments cv [a, b]
        = (fst (PackBOFArguments cv [a]) @ fst (PackBOFArguments cv [b]), None))
   \<and> (snd (PackBOFArguments cv args) = None \<longrightarrow>
      (\<forall>x\<in>set args. snd (PackBOFArguments cv [x]) = None)
      \<and> fst (PackBOFArguments cv args)
          = concat (map (\<lambda>x. fst (PackBOFArguments cv [x])) args))"
proof (intro conjI impI)
  assume "snd (PackBOFArguments cv [a]) = None \<and> snd (PackBOFArguments cv [b]) = None"
  then have "\<forall>x\<in>set [a, b]. snd (PackBOFArguments cv [x]) = None" by simp
  then have "pack_loop cv [a, b] []
      = ([] @ concat (map (\<lambda>x. fst (PackBOFArguments cv [x])) [a, b]), None)"
    by (rule pack_loop_ok)
  then show "PackBOFArguments cv [a, b]
      = (fst (PackBOFArguments cv [a]) @ fst (PackBOFArguments cv [b]), None)"
    by (simp add: Pack_loop [of cv "[a, b]"])
next
  assume ok: "snd (PackBOFArguments cv args) = None"
  then show all: "\<forall>x\<in>set args. snd (PackBOFArguments cv [x]) = None"
    unfolding Pack_loop [of cv args] by (rule pack_loop_success_all)
  then have "pack_loop cv args []
      = ([] @ concat (map (\<lambda>x. fst (PackBOFArguments cv [x])) args), None)"
    by (rule pack_loop_ok)
  then show "fst (PackBOFArguments cv args)
      = concat (map (\<lambda>x. fst (PackBOFArguments cv [x])) args)"
    by (simp add: Pack_loop [of cv args])
qed

theorem pack_concat_witness:
  "snd (PackBOFArguments zero_impl [\<lparr>Type = ''int'', Value = VInt 12112\<rparr>]) = None
   \<and> snd (PackBOFArguments zero_impl [\<lparr>Type = ''short'', Value = VInt 0\<rparr>]) = None
   \<and> PackBOFArguments zero_impl
        [\<lparr>Type = ''int'', Value = VInt 12112\<rparr>, \<lparr>Type = ''short'', Value = VInt 0\<rparr>]
      = ([0, 0, 0x2F, 0x50] @ [0, 0], None)
   \<and> fst (PackBOFArguments zero_impl
        [\<lparr>Type = ''int'', Value = VInt 12112\<rparr>, \<lparr>Type = ''short'', Value = VInt 0\<rparr>])
      = concat [[0, 0, 0x2F, 0x50], [0, 0]]"
proof -
  let ?a = "\<lparr>Type = ''int'', Value = VInt 12112\<rparr>"
  let ?b = "\<lparr>Type = ''short'', Value = VInt 0\<rparr>"
  have a: "PackBOFArguments zero_impl [?a] = ([0, 0, 0x2F, 0x50], None)"
    by (simp add: pack_single pack_switch_def packInt_def PutUint32_make be32_def
          drop_bit_eq_div)
  have b: "PackBOFArguments zero_impl [?b] = ([0, 0], None)"
    by (simp add: pack_single pack_switch_def packShort_def PutUint16_make be16_def)
  show ?thesis
    using pack_concat [of zero_impl ?a ?b "[?a, ?b]"] by (simp add: a b)
qed

lemma pack_single_unrecognized:
  "\<not> recognized (Type a) \<Longrightarrow> PackBOFArguments cv [a] = ([], Some (UnsupportedType (Type a)))"
  using pack_switch_None [of cv a] by (simp add: pack_single)


lemma pack_fails:
  assumes "a \<in> set args" and "snd (PackBOFArguments cv [a]) \<noteq> None"
  shows "fst (PackBOFArguments cv args) = [] \<and> snd (PackBOFArguments cv args) \<noteq> None"
proof -
  have "snd (pack_loop cv args []) \<noteq> None"
  proof
    assume "snd (pack_loop cv args []) = None"
    then have "\<forall>x\<in>set args. snd (PackBOFArguments cv [x]) = None"
      by (rule pack_loop_success_all)
    with assms show False by simp
  qed
  then show ?thesis
    by (simp add: Pack_loop [of cv args] pack_loop_error)
qed

lemma pack_first_failure:
  "(\<forall>p\<in>set pre. snd (PackBOFArguments cv [p]) = None) \<Longrightarrow>
   PackBOFArguments cv [a] = ([], Some e) \<Longrightarrow>
   PackBOFArguments cv (pre @ a # post) = ([], Some e)"
  using pack_loop_first_failure [of pre cv a e post "[]"]
  by (simp add: Pack_loop [of cv "pre @ a # post"])

text \<open>
  C6, as the code has it. A list with an argument whose tag is not recognized fails and
  returns no bytes. The error is \<open>UnsupportedType\<close>, naming that tag, when every argument
  before it packs; an earlier argument that fails to pack decides the error instead.
\<close>

theorem unsupported_type_fails:
  "((\<exists>a\<in>set args. \<not> recognized (Type a)) \<longrightarrow>
      fst (PackBOFArguments cv args) = [] \<and> snd (PackBOFArguments cv args) \<noteq> None)
   \<and> ((\<forall>p\<in>set pre. snd (PackBOFArguments cv [p]) = None) \<and> \<not> recognized (Type a) \<longrightarrow>
      PackBOFArguments cv (pre @ a # post) = ([], Some (UnsupportedType (Type a))))"
proof -
  have 1: "fst (PackBOFArguments cv args) = [] \<and> snd (PackBOFArguments cv args) \<noteq> None"
    if "\<exists>a\<in>set args. \<not> recognized (Type a)"
  proof -
    from that obtain x where x: "x \<in> set args" "\<not> recognized (Type x)" by blast
    from x(2) have "snd (PackBOFArguments cv [x]) \<noteq> None"
      by (simp add: pack_single_unrecognized)
    with x(1) show ?thesis by (rule pack_fails)
  qed
  have 2: "PackBOFArguments cv (pre @ a # post) = ([], Some (UnsupportedType (Type a)))"
    if "\<forall>p\<in>set pre. snd (PackBOFArguments cv [p]) = None" and "\<not> recognized (Type a)"
    using that by (simp add: pack_first_failure pack_single_unrecognized)
  from 1 2 show ?thesis by blast
qed

theorem unsupported_type_fails_witness:
  "\<not> recognized ''foo''
   \<and> snd (PackBOFArguments zero_impl [\<lparr>Type = ''short'', Value = VInt 0\<rparr>]) = None
   \<and> PackBOFArguments zero_impl
        [\<lparr>Type = ''short'', Value = VInt 0\<rparr>, \<lparr>Type = ''foo'', Value = VInt 1\<rparr>,
         \<lparr>Type = ''int'', Value = VInt 2\<rparr>]
      = ([], Some (UnsupportedType ''foo''))"
proof -
  let ?p = "\<lparr>Type = ''short'', Value = VInt 0\<rparr>"
  let ?a = "\<lparr>Type = ''foo'', Value = VInt 1\<rparr>"
  let ?q = "\<lparr>Type = ''int'', Value = VInt 2\<rparr>"
  have r: "\<not> recognized ''foo''" by (simp add: recognized_def)
  have p: "snd (PackBOFArguments zero_impl [?p]) = None"
    by (simp add: pack_single pack_switch_def packShort_def)
  show ?thesis
    using unsupported_type_fails [where cv = zero_impl and args = "[?p, ?a, ?q]"
        and pre = "[?p]" and a = ?a and post = "[?q]"] r p by simp
qed

text \<open>
  The claim as stated fails: here the list holds an unrecognized tag, and the error is the
  one of the argument before it.
\<close>

theorem unsupported_type_counterexample:
  "\<not> recognized ''foo''
   \<and> PackBOFArguments zero_impl
        [\<lparr>Type = ''string'', Value = VInt 5\<rparr>, \<lparr>Type = ''foo'', Value = VInt 1\<rparr>]
      = ([], Some (TypeMismatch ''string'' (InvalidType ''string'' ''int'')))"
  by (simp add: recognized_def Pack_loop pack_switch_def packStringWithPrefix_def)




lemma packInt_error: "snd (packInt cv v) = Some e \<Longrightarrow> fst (packInt cv v) = []"
  by (cases v) (auto simp: packInt_def split: prod.splits option.splits)

lemma packShort_error: "snd (packShort cv v) = Some e \<Longrightarrow> fst (packShort cv v) = []"
  by (cases v) (auto simp: packShort_def split: prod.splits option.splits)

lemma packString_error:
  "snd (packStringWithPrefix v) = Some e \<Longrightarrow> fst (packStringWithPrefix v) = []"
  by (cases v) (auto simp: packStringWithPrefix_def Let_def)

lemma packWide_error:
  "snd (packWideStringWithPrefix v) = Some e \<Longrightarrow> fst (packWideStringWithPrefix v) = []"
  by (cases v) (auto simp: packWideStringWithPrefix_def Let_def)

lemma packBinary_error:
  "snd (packBinaryWithPrefix v) = Some e \<Longrightarrow> fst (packBinaryWithPrefix v) = []"
  by (cases v) (auto simp: packBinaryWithPrefix_def split: prod.splits option.splits)

lemma same_outcome_packer:
  assumes "pack_switch cv \<lparr>Type = short, Value = v\<rparr> = Some r"
    and "pack_switch cv \<lparr>Type = long, Value = v\<rparr> = Some r"
    and "\<And>e. snd r = Some e \<Longrightarrow> fst r = []"
  shows "same_outcome cv short long v"
proof (cases r)
  case (Pair d err)
  show ?thesis
  proof (cases err)
    case None
    with Pair assms show ?thesis by (simp add: same_outcome_def pack_single)
  next
    case (Some e)
    with Pair assms(3) have "d = []" by simp
    with Some Pair assms(1,2) show ?thesis by (simp add: same_outcome_def pack_single)
  qed
qed

text \<open>
  C9, as the code has it. Each one-letter tag gives the same outcome as its long spelling
  on every value: the same bytes, or a failure with no bytes and the same cause. The error
  names the tag as it was spelled.
\<close>

theorem tag_aliases:
  "same_outcome cv ''i'' ''int'' v \<and> same_outcome cv ''s'' ''short'' v
   \<and> same_outcome cv ''z'' ''string'' v \<and> same_outcome cv ''Z'' ''wstring'' v
   \<and> same_outcome cv ''b'' ''binary'' v"
proof -
  have "same_outcome cv ''i'' ''int'' v"
    by (rule same_outcome_packer [where r = "packInt cv v"])
      (simp_all add: pack_switch_def packInt_error)
  moreover have "same_outcome cv ''s'' ''short'' v"
    by (rule same_outcome_packer [where r = "packShort cv v"])
      (simp_all add: pack_switch_def packShort_error)
  moreover have "same_outcome cv ''z'' ''string'' v"
    by (rule same_outcome_packer [where r = "packStringWithPrefix v"])
      (simp_all add: pack_switch_def packString_error)
  moreover have "same_outcome cv ''Z'' ''wstring'' v"
    by (rule same_outcome_packer [where r = "packWideStringWithPrefix v"])
      (simp_all add: pack_switch_def packWide_error)
  moreover have "same_outcome cv ''b'' ''binary'' v"
    by (rule same_outcome_packer [where r = "packBinaryWithPrefix v"])
      (simp_all add: pack_switch_def packBinary_error)
  ultimately show ?thesis by simp
qed

theorem tag_aliases_witness:
  "PackBOFArguments zero_impl [\<lparr>Type = ''s'', Value = VInt 0\<rparr>] = ([0, 0], None)
   \<and> same_outcome zero_impl ''s'' ''short'' (VInt 0)
   \<and> same_outcome zero_impl ''z'' ''string'' (VInt 0)"
proof -
  have "PackBOFArguments zero_impl [\<lparr>Type = ''s'', Value = VInt 0\<rparr>] = ([0, 0], None)"
    by (simp add: pack_single pack_switch_def packShort_def PutUint16_make be16_def)
  then show ?thesis
    using tag_aliases [of zero_impl "VInt 0"] by simp
qed

text \<open>
  The claim as stated fails: the two failures differ, each names its own spelling.
\<close>

theorem tag_aliases_counterexample:
  "PackBOFArguments zero_impl [\<lparr>Type = ''i'', Value = VOther ''bool''\<rparr>]
     = ([], Some (TypeMismatch ''i'' (InvalidType ''int'' ''bool'')))
   \<and> PackBOFArguments zero_impl [\<lparr>Type = ''int'', Value = VOther ''bool''\<rparr>]
     = ([], Some (TypeMismatch ''int'' (InvalidType ''int'' ''bool'')))
   \<and> PackBOFArguments zero_impl [\<lparr>Type = ''i'', Value = VOther ''bool''\<rparr>]
     \<noteq> PackBOFArguments zero_impl [\<lparr>Type = ''int'', Value = VOther ''bool''\<rparr>]"
  by (simp add: pack_single pack_switch_def packInt_def)

section \<open>Decimal strings and numeric coercion\<close>

lemma unat_byte_of_char: "unat (of_nat (of_char c) :: byte) = of_char c"
proof -
  have "(of_char c :: nat) mod 256 = of_char c" by (rule of_char_mod_256)
  then show ?thesis by (simp add: unat_of_nat)
qed

lemma byte_is_digit:
  "(0x30 \<le> (of_nat (of_char c) :: byte) \<and> (of_nat (of_char c) :: byte) \<le> 0x39) = is_digit c"
  by (simp add: word_le_nat_alt unat_byte_of_char is_digit_def)

lemma byte_digit_value:
  "is_digit c \<Longrightarrow> unat ((of_nat (of_char c) :: byte) - 0x30) = digit_value c"
proof -
  assume "is_digit c"
  then have "(0x30 :: byte) \<le> of_nat (of_char c)"
    using byte_is_digit [of c] by simp
  then have "unat ((of_nat (of_char c) :: byte) - 0x30) = unat (of_nat (of_char c) :: byte) - unat (0x30 :: byte)"
    by (rule unat_sub)
  then show ?thesis by (simp add: unat_byte_of_char digit_value_def)
qed

lemma digit_value_le: "is_digit c \<Longrightarrow> digit_value c \<le> 9"
  unfolding is_digit_def digit_value_def by arith

lemma dec_from_Cons: "dec_from n (c # s) = dec_from (n * 10 + digit_value c) s"
  by (simp add: dec_from_def)

lemma dec_from_mono: "n \<le> dec_from n s"
proof (induction s arbitrary: n)
  case Nil
  then show ?case by (simp add: dec_from_def)
next
  case (Cons c s)
  have "n \<le> n * 10 + digit_value c" by simp
  also have "\<dots> \<le> dec_from (n * 10 + digit_value c) s" by (rule Cons.IH)
  finally show ?case by (simp add: dec_from_Cons)
qed

lemma loop_Cons_digit:
  assumes "is_digit c" and "n < 4294967296"
  shows "ParseUint_loop maxVal (bytes_of_string (c # s)) n =
     (if n * 10 + digit_value c > maxVal then (maxVal, Some ErrRange)
      else ParseUint_loop maxVal (bytes_of_string s) (n * 10 + digit_value c))"
proof -
  have d: "digit_value c \<le> 9" using assms(1) by (rule digit_value_le)
  have c: "\<not> cutoff10 \<le> n" using assms(2) by (simp add: cutoff10_def)
  have m1: "n * 10 mod 18446744073709551616 = n * 10" using assms(2) by simp
  have m2: "(n * 10 + digit_value c) mod 18446744073709551616 = n * 10 + digit_value c"
    using assms(2) d by simp
  show ?thesis
    using assms(1) byte_is_digit [of c]
    by (simp add: bytes_of_string_def byte_digit_value c m1 m2 Let_def)
qed

lemma loop_Cons_other:
  "\<not> is_digit c \<Longrightarrow> ParseUint_loop maxVal (bytes_of_string (c # s)) n = (0, Some ErrSyntax)"
  using byte_is_digit [of c] by (auto simp: bytes_of_string_def)

lemma loop_ok:
  "list_all is_digit s \<Longrightarrow> dec_from n s \<le> maxVal \<Longrightarrow> maxVal < 4294967296 \<Longrightarrow>
   ParseUint_loop maxVal (bytes_of_string s) n = (dec_from n s, None)"
proof (induction s arbitrary: n)
  case Nil
  then show ?case by (simp add: bytes_of_string_def dec_from_def)
next
  case (Cons c s)
  let ?n1 = "n * 10 + digit_value c"
  have le: "?n1 \<le> maxVal"
    using dec_from_mono [of ?n1 s] Cons.prems(2) by (simp add: dec_from_Cons)
  have "n \<le> ?n1" by simp
  with le Cons.prems(3) have n: "n < 4294967296" by simp
  have "ParseUint_loop maxVal (bytes_of_string (c # s)) n
      = ParseUint_loop maxVal (bytes_of_string s) ?n1"
    using Cons.prems(1) n le by (simp add: loop_Cons_digit)
  also have "\<dots> = (dec_from ?n1 s, None)"
    using Cons.prems by (intro Cons.IH) (simp_all add: dec_from_Cons)
  finally show ?case by (simp add: dec_from_Cons)
qed

lemma loop_range:
  "list_all is_digit s \<Longrightarrow> maxVal < dec_from n s \<Longrightarrow> n \<le> maxVal \<Longrightarrow>
   maxVal < 4294967296 \<Longrightarrow>
   ParseUint_loop maxVal (bytes_of_string s) n = (maxVal, Some ErrRange)"
proof (induction s arbitrary: n)
  case Nil
  then show ?case by (simp add: dec_from_def)
next
  case (Cons c s)
  let ?n1 = "n * 10 + digit_value c"
  have n: "n < 4294967296" using Cons.prems(3,4) by simp
  have step: "ParseUint_loop maxVal (bytes_of_string (c # s)) n =
     (if ?n1 > maxVal then (maxVal, Some ErrRange)
      else ParseUint_loop maxVal (bytes_of_string s) ?n1)"
    using Cons.prems(1) n by (simp add: loop_Cons_digit)
  show ?case
  proof (cases "?n1 > maxVal")
    case True
    with step show ?thesis by simp
  next
    case False
    then have "ParseUint_loop maxVal (bytes_of_string s) ?n1 = (maxVal, Some ErrRange)"
      using Cons.prems by (intro Cons.IH) (simp_all add: dec_from_Cons)
    with step False show ?thesis by simp
  qed
qed

lemma loop_syntax:
  "\<not> list_all is_digit s \<Longrightarrow> n \<le> maxVal \<Longrightarrow> maxVal < 4294967296 \<Longrightarrow>
   snd (ParseUint_loop maxVal (bytes_of_string s) n) \<noteq> None"
proof (induction s arbitrary: n)
  case Nil
  then show ?case by simp
next
  case (Cons c s)
  show ?case
  proof (cases "is_digit c")
    case False
    then show ?thesis by (simp add: loop_Cons_other)
  next
    case True
    let ?n1 = "n * 10 + digit_value c"
    have n: "n < 4294967296" using Cons.prems(2,3) by simp
    have step: "ParseUint_loop maxVal (bytes_of_string (c # s)) n =
       (if ?n1 > maxVal then (maxVal, Some ErrRange)
        else ParseUint_loop maxVal (bytes_of_string s) ?n1)"
      using True n by (simp add: loop_Cons_digit)
    show ?thesis
    proof (cases "?n1 > maxVal")
      case True
      with step show ?thesis by simp
    next
      case False
      then have "snd (ParseUint_loop maxVal (bytes_of_string s) ?n1) \<noteq> None"
        using Cons.prems True by (intro Cons.IH) simp_all
      with step False show ?thesis by simp
    qed
  qed
qed

lemma ParseUint10_ok:
  assumes "decimal_uint w s" and "w \<le> 32"
  shows "ParseUint10 s w = (dec_value s, None)"
proof -
  have "(2::nat) ^ w \<le> 2 ^ 32" using assms(2) by (rule power_increasing) simp
  then have m: "(2::nat) ^ w - 1 < 4294967296" by simp
  have "dec_from 0 s < 2 ^ w"
    using assms(1) by (simp add: decimal_uint_def dec_value_def)
  then have "dec_from 0 s \<le> 2 ^ w - 1" by arith
  then have "ParseUint_loop (2 ^ w - 1) (bytes_of_string s) 0 = (dec_from 0 s, None)"
    using assms(1) m by (intro loop_ok) (simp_all add: decimal_uint_def)
  then show ?thesis
    using assms(1) by (simp add: ParseUint10_def decimal_uint_def dec_value_def)
qed

lemma ParseUint10_error:
  assumes "\<not> decimal_uint w s" and "w \<le> 32"
  shows "snd (ParseUint10 s w) \<noteq> None"
proof -
  have "(2::nat) ^ w \<le> 2 ^ 32" using assms(2) by (rule power_increasing) simp
  then have m: "(2::nat) ^ w - 1 < 4294967296" by simp
  show ?thesis
  proof (cases "s = []")
    case True
    then show ?thesis by (simp add: ParseUint10_def)
  next
    case ne: False
    show ?thesis
    proof (cases "list_all is_digit s")
      case False
      then have "snd (ParseUint_loop (2 ^ w - 1) (bytes_of_string s) 0) \<noteq> None"
        using m by (intro loop_syntax) simp_all
      with ne show ?thesis by (simp add: ParseUint10_def)
    next
      case True
      with assms(1) ne have "\<not> dec_from 0 s < 2 ^ w"
        by (simp add: decimal_uint_def dec_value_def)
      moreover have "(0::nat) < 2 ^ w" by simp
      ultimately have "2 ^ w - 1 < dec_from 0 s" by arith
      then have "ParseUint_loop (2 ^ w - 1) (bytes_of_string s) 0 = (2 ^ w - 1, Some ErrRange)"
        using True m by (intro loop_range) simp_all
      with ne show ?thesis by (simp add: ParseUint10_def)
    qed
  qed
qed

lemma be_value_nat32: "n < 2 ^ 32 \<Longrightarrow> be_value (be32 (of_nat n)) = n"
  by (simp add: be_value_be32 unat_of_nat)

lemma be_value_nat16: "n < 2 ^ 16 \<Longrightarrow> be_value (be16 (of_nat n)) = n"
  by (simp add: be_value_be16 unat_of_nat)



lemma packInt_string_ok:
  "decimal_uint 32 s \<Longrightarrow> packInt cv (VString s) = (be32 (of_nat (dec_value s)), None)"
  by (simp add: packInt_def ParseUint10_ok PutUint32_make)

lemma packShort_string_ok:
  "decimal_uint 16 s \<Longrightarrow> packShort cv (VString s) = (be16 (of_nat (dec_value s)), None)"
  by (simp add: packShort_def ParseUint10_ok PutUint16_make)

lemma packInt_string_error:
  assumes "\<not> decimal_uint 32 s"
  shows "\<exists>e. packInt cv (VString s) = ([], Some (NumError e))"
proof -
  from assms have "snd (ParseUint10 s 32) \<noteq> None" by (rule ParseUint10_error) simp
  then obtain n e where "ParseUint10 s 32 = (n, Some e)"
    by (cases "ParseUint10 s 32") auto
  then show ?thesis by (simp add: packInt_def)
qed

lemma packShort_string_error:
  assumes "\<not> decimal_uint 16 s"
  shows "\<exists>e. packShort cv (VString s) = ([], Some (NumError e))"
proof -
  from assms have "snd (ParseUint10 s 16) \<noteq> None" by (rule ParseUint10_error) simp
  then obtain n e where "ParseUint10 s 16 = (n, Some e)"
    by (cases "ParseUint10 s 16") auto
  then show ?thesis by (simp add: packShort_def)
qed

lemma pack_one_int:
  "int_tag t \<Longrightarrow> pack_one cv t v =
     (case packInt cv v of (d, Some e) \<Rightarrow> ([], Some (TypeMismatch t e)) | (d, None) \<Rightarrow> (d, None))"
  by (auto simp: pack_one_def int_tag_def pack_single pack_switch_def
        split: prod.splits option.splits)

lemma pack_one_short:
  "short_tag t \<Longrightarrow> pack_one cv t v =
     (case packShort cv v of (d, Some e) \<Rightarrow> ([], Some (TypeMismatch t e)) | (d, None) \<Rightarrow> (d, None))"
  by (auto simp: pack_one_def short_tag_def pack_single pack_switch_def
        split: prod.splits option.splits)

lemma pack_one_int_string_ok:
  "int_tag t \<Longrightarrow> decimal_uint 32 s \<Longrightarrow>
   pack_one cv t (VString s) = (be32 (of_nat (dec_value s)), None)"
  by (simp add: pack_one_int packInt_string_ok)

lemma pack_one_short_string_ok:
  "short_tag t \<Longrightarrow> decimal_uint 16 s \<Longrightarrow>
   pack_one cv t (VString s) = (be16 (of_nat (dec_value s)), None)"
  by (simp add: pack_one_short packShort_string_ok)

lemma pack_one_int_string_error:
  assumes "int_tag t" and "\<not> decimal_uint 32 s"
  shows "fst (pack_one cv t (VString s)) = []
     \<and> (\<exists>e. snd (pack_one cv t (VString s)) = Some (TypeMismatch t (NumError e)))"
  using packInt_string_error [OF assms(2), of cv] assms(1) by (auto simp: pack_one_int)

lemma pack_one_short_string_error:
  assumes "short_tag t" and "\<not> decimal_uint 16 s"
  shows "fst (pack_one cv t (VString s)) = []
     \<and> (\<exists>e. snd (pack_one cv t (VString s)) = Some (TypeMismatch t (NumError e)))"
  using packShort_string_error [OF assms(2), of cv] assms(1) by (auto simp: pack_one_short)

lemma dec_value_42: "dec_value ''42'' = 42"
  by (simp add: dec_value_def dec_from_def digit_value_def)

lemma dec_value_2_32: "dec_value ''4294967296'' = 4294967296"
  by (simp add: dec_value_def dec_from_def digit_value_def)

lemma dec_value_2_16: "dec_value ''65536'' = 65536"
  by (simp add: dec_value_def dec_from_def digit_value_def)







text \<open>
  C10. For an int or a short argument whose value is a string, packing succeeds exactly
  when the string is a nonempty sequence of decimal digits denoting a number below
  \<open>2 ^ 32\<close> (\<open>2 ^ 16\<close> for a short), and then the bytes are that number, unwrapped.
  Every other string, a negative number and a number at or above the bound among them,
  gives no bytes and the error of the parser.
\<close>

theorem decimal_strings_are_range_checked:
  "(int_tag t \<and> decimal_uint 32 s \<longrightarrow>
      pack_one cv t (VString s) = (be32 (of_nat (dec_value s)), None)
      \<and> be_value (be32 (of_nat (dec_value s))) = dec_value s)
   \<and> (int_tag t \<and> \<not> decimal_uint 32 s \<longrightarrow>
      fst (pack_one cv t (VString s)) = []
      \<and> (\<exists>e. snd (pack_one cv t (VString s)) = Some (TypeMismatch t (NumError e))))
   \<and> (short_tag t \<and> decimal_uint 16 s \<longrightarrow>
      pack_one cv t (VString s) = (be16 (of_nat (dec_value s)), None)
      \<and> be_value (be16 (of_nat (dec_value s))) = dec_value s)
   \<and> (short_tag t \<and> \<not> decimal_uint 16 s \<longrightarrow>
      fst (pack_one cv t (VString s)) = []
      \<and> (\<exists>e. snd (pack_one cv t (VString s)) = Some (TypeMismatch t (NumError e))))
   \<and> \<not> decimal_uint w (CHR ''-'' # ds)
   \<and> (2 ^ w \<le> dec_value s \<longrightarrow> \<not> decimal_uint w s)"
proof -
  have 1: "pack_one cv t (VString s) = (be32 (of_nat (dec_value s)), None)
      \<and> be_value (be32 (of_nat (dec_value s))) = dec_value s"
    if "int_tag t" "decimal_uint 32 s"
    using that by (simp add: pack_one_int_string_ok be_value_nat32 decimal_uint_def)
  have 2: "fst (pack_one cv t (VString s)) = []
      \<and> (\<exists>e. snd (pack_one cv t (VString s)) = Some (TypeMismatch t (NumError e)))"
    if "int_tag t" "\<not> decimal_uint 32 s"
    using that by (rule pack_one_int_string_error)
  have 3: "pack_one cv t (VString s) = (be16 (of_nat (dec_value s)), None)
      \<and> be_value (be16 (of_nat (dec_value s))) = dec_value s"
    if "short_tag t" "decimal_uint 16 s"
    using that by (simp add: pack_one_short_string_ok be_value_nat16 decimal_uint_def)
  have 4: "fst (pack_one cv t (VString s)) = []
      \<and> (\<exists>e. snd (pack_one cv t (VString s)) = Some (TypeMismatch t (NumError e)))"
    if "short_tag t" "\<not> decimal_uint 16 s"
    using that by (rule pack_one_short_string_error)
  have 5: "\<not> decimal_uint w (CHR ''-'' # ds)"
    by (simp add: decimal_uint_def is_digit_def)
  have 6: "\<not> decimal_uint w s" if "2 ^ w \<le> dec_value s"
    using that by (simp add: decimal_uint_def)
  from 1 2 3 4 5 6 show ?thesis by blast
qed

theorem decimal_strings_are_range_checked_witness:
  "int_tag ''int'' \<and> short_tag ''s''
   \<and> decimal_uint 32 ''42'' \<and> decimal_uint 16 ''42''
   \<and> pack_one zero_impl ''int'' (VString ''42'') = ([0, 0, 0, 42], None)
   \<and> pack_one zero_impl ''s'' (VString ''42'') = ([0, 42], None)
   \<and> \<not> decimal_uint 32 ''4294967296'' \<and> \<not> decimal_uint 16 ''65536''
   \<and> fst (pack_one zero_impl ''int'' (VString ''4294967296'')) = []
   \<and> fst (pack_one zero_impl ''s'' (VString ''65536'')) = []
   \<and> fst (pack_one zero_impl ''int'' (VString ''-1'')) = []"
proof -
  have t: "int_tag ''int''" "short_tag ''s''"
    by (simp_all add: int_tag_def short_tag_def)
  have a: "decimal_uint 32 ''42''" "decimal_uint 16 ''42''"
    by (simp_all add: decimal_uint_def dec_value_42 is_digit_def)
  have b: "\<not> decimal_uint 32 ''4294967296''" "\<not> decimal_uint 16 ''65536''"
    by (simp_all add: decimal_uint_def dec_value_2_32 dec_value_2_16)
  have c: "be32 (of_nat 42) = [0, 0, 0, 42]" "be16 (of_nat 42) = [0, 42]"
    by (simp_all add: be32_def be16_def)
  show ?thesis
    using decimal_strings_are_range_checked [where cv = zero_impl and t = "''int''"
        and s = "''42''" and w = 32 and ds = "''1''"]
      decimal_strings_are_range_checked [where cv = zero_impl and t = "''s''"
        and s = "''42''" and w = 32 and ds = "''1''"]
      decimal_strings_are_range_checked [where cv = zero_impl and t = "''int''"
        and s = "''4294967296''" and w = 32 and ds = "''1''"]
      decimal_strings_are_range_checked [where cv = zero_impl and t = "''s''"
        and s = "''65536''" and w = 16 and ds = "''1''"]
      decimal_strings_are_range_checked [where cv = zero_impl and t = "''int''"
        and s = "''-1''" and w = 32 and ds = "''1''"]
      t a b c
    by (simp add: dec_value_42)
qed




section \<open>Hexadecimal data\<close>

lemma low_nibble_mask: "v AND 0x0f = take_bit 4 v" for v :: byte
proof -
  have "(0x0f :: byte) = mask 4" by (simp add: mask_eq_exp_minus_1)
  then show ?thesis by (simp add: take_bit_eq_mask)
qed

lemma nibbles_join: "push_bit 4 (drop_bit 4 v) OR (v AND 0x0f) = v" for v :: byte
  unfolding low_nibble_mask
  by (rule bit_word_eqI) (auto simp: bit_simps)

lemma high_nibble_less: "unat (drop_bit 4 v) < 16" for v :: byte
proof -
  have "unat v < 256" using unsigned_less [of v] by simp
  then show ?thesis by (simp add: unat_shift)
qed

lemma low_nibble_less: "unat (v AND 0x0f) < 16" for v :: byte
proof -
  have "unat (take_bit 4 v) = take_bit 4 (unat v)"
    by (rule unsigned_take_bit_eq)
  also have "\<dots> = unat v mod 16" by (simp add: take_bit_eq_mod)
  finally show ?thesis by (simp add: low_nibble_mask)
qed

lemma sixteen_cases:
  fixes n :: nat
  assumes "n < 16"
  shows "n \<in> {15, 14, 13, 12, 11, 10, 9, 8, 7, 6, 5, 4, 3, 2, 1, 0}"
proof -
  from assms have "n = 15 \<or> n = 14 \<or> n = 13 \<or> n = 12 \<or> n = 11 \<or> n = 10 \<or> n = 9 \<or> n = 8
      \<or> n = 7 \<or> n = 6 \<or> n = 5 \<or> n = 4 \<or> n = 3 \<or> n = 2 \<or> n = 1 \<or> n = 0"
    by arith
  then show ?thesis by simp
qed

lemma hextable_values:
  "hextable = [0x30, 0x31, 0x32, 0x33, 0x34, 0x35, 0x36, 0x37, 0x38, 0x39,
               0x61, 0x62, 0x63, 0x64, 0x65, 0x66]"
  by (simp add: hextable_def bytes_of_string_def)

lemma reverse_hextable:
  assumes "n < 16"
  shows "reverseHexTable (hextable ! n) = of_nat n"
  using sixteen_cases [OF assms]
  by (auto simp: hextable_values reverseHexTable_def)

lemma nibble_word: "unat x < 16 \<Longrightarrow> reverseHexTable (hextable ! unat x) = x" for x :: byte
  by (simp add: reverse_hextable)

lemma nibble_small: "unat x < 16 \<Longrightarrow> \<not> 0x0f < x" for x :: byte
  by (simp add: word_less_nat_alt)

lemma hex_Decode_Encode: "hex_Decode (hex_Encode b) = (b, None)"
proof (induction b)
  case Nil
  then show ?case by simp
next
  case (Cons v b)
  have h: "reverseHexTable (hextable ! unat (drop_bit 4 v)) = drop_bit 4 v"
    by (rule nibble_word) (rule high_nibble_less)
  have l: "reverseHexTable (hextable ! unat (v AND 0x0f)) = v AND 0x0f"
    by (rule nibble_word) (rule low_nibble_less)
  have hs: "\<not> 0x0f < drop_bit 4 v" by (rule nibble_small) (rule high_nibble_less)
  have ls: "\<not> 0x0f < (v AND 0x0f)" by (rule nibble_small) (rule low_nibble_less)
  show ?case
    by (simp only: hex_Encode.simps hex_Decode.simps Let_def h l hs ls if_False Cons.IH
          prod.case nibbles_join)
qed

lemma bytes_string_bytes: "bytes_of_string (string_of_bytes b) = b"
proof -
  have "(of_nat (of_char (char_of (unat w) :: char)) :: byte) = w" for w :: byte
  proof -
    have "unat w < 256" using unsigned_less [of w] by simp
    then show ?thesis by simp
  qed
  then show ?thesis
    by (simp add: bytes_of_string_def string_of_bytes_def map_idI)
qed

lemma hex_roundtrip: "hex_DecodeString (hex_EncodeToString b) = (b, None)"
  by (simp add: hex_DecodeString_def hex_EncodeToString_def bytes_string_bytes
        hex_Decode_Encode)

lemma byte_less_nat: "m < 256 \<Longrightarrow> ((0x0f :: byte) < of_nat m) = (15 < m)"
  by (simp add: word_less_nat_alt unat_of_nat)

lemma byte_le_nat: "m < 256 \<Longrightarrow> ((of_nat k :: byte) \<le> of_nat m) = (k mod 256 \<le> m)"
  by (simp add: word_le_nat_alt unat_of_nat)

lemma of_char_less: "(of_char c :: nat) < 256"
proof -
  have "(of_char c :: nat) mod 256 = of_char c" by (rule of_char_mod_256)
  then show ?thesis by (metis mod_less_divisor zero_less_numeral)
qed

lemma byte_compare:
  assumes "n < 256"
  shows "((0x30 :: byte) \<le> of_nat n) = (48 \<le> n)" "((of_nat n :: byte) \<le> 0x39) = (n \<le> 57)"
    "((0x61 :: byte) \<le> of_nat n) = (97 \<le> n)" "((of_nat n :: byte) \<le> 0x66) = (n \<le> 102)"
    "((0x41 :: byte) \<le> of_nat n) = (65 \<le> n)" "((of_nat n :: byte) \<le> 0x46) = (n \<le> 70)"
  using assms by (simp_all add: word_le_nat_alt unat_of_nat)

lemma byte_small: "unat x \<le> 15 \<Longrightarrow> \<not> (0x0f :: byte) < x"
  by (simp add: word_less_nat_alt)

lemma unat_sub_const:
  "k \<le> n \<Longrightarrow> n < 256 \<Longrightarrow> k < 256 \<Longrightarrow> unat ((of_nat n :: byte) - of_nat k) = n - k"
proof -
  assume a: "k \<le> n" "n < 256" "k < 256"
  then have "(of_nat k :: byte) \<le> of_nat n"
    by (simp add: word_le_nat_alt unat_of_nat)
  then have "unat ((of_nat n :: byte) - of_nat k) = unat (of_nat n :: byte) - unat (of_nat k :: byte)"
    by (rule unat_sub)
  with a show ?thesis by (simp add: unat_of_nat)
qed

lemma reverse_digit:
  assumes "n < 256" and "48 \<le> n \<and> n \<le> 57"
  shows "\<not> 0x0f < reverseHexTable (of_nat n)"
proof -
  have r: "reverseHexTable (of_nat n) = of_nat n - of_nat 48"
    using assms by (simp add: reverseHexTable_def byte_compare)
  have u: "unat ((of_nat n :: byte) - of_nat 48) = n - 48"
    using assms by (intro unat_sub_const) simp_all
  have "unat (reverseHexTable (of_nat n)) = n - 48" by (simp only: r u)
  then have "unat (reverseHexTable (of_nat n)) \<le> 15" using assms by arith
  then show ?thesis by (rule byte_small)
qed

lemma reverse_lower:
  assumes "n < 256" and "97 \<le> n \<and> n \<le> 102"
  shows "\<not> 0x0f < reverseHexTable (of_nat n)"
proof -
  have r: "reverseHexTable (of_nat n) = of_nat n - of_nat 87"
    using assms by (simp add: reverseHexTable_def byte_compare)
  have u: "unat ((of_nat n :: byte) - of_nat 87) = n - 87"
    using assms by (intro unat_sub_const) simp_all
  have "unat (reverseHexTable (of_nat n)) = n - 87" by (simp only: r u)
  then have "unat (reverseHexTable (of_nat n)) \<le> 15" using assms by arith
  then show ?thesis by (rule byte_small)
qed

lemma reverse_upper:
  assumes "n < 256" and "65 \<le> n \<and> n \<le> 70"
  shows "\<not> 0x0f < reverseHexTable (of_nat n)"
proof -
  have r: "reverseHexTable (of_nat n) = of_nat n - of_nat 55"
    using assms by (simp add: reverseHexTable_def byte_compare)
  have u: "unat ((of_nat n :: byte) - of_nat 55) = n - 55"
    using assms by (intro unat_sub_const) simp_all
  have "unat (reverseHexTable (of_nat n)) = n - 55" by (simp only: r u)
  then have "unat (reverseHexTable (of_nat n)) \<le> 15" using assms by arith
  then show ?thesis by (rule byte_small)
qed

lemma reverse_other:
  assumes "n < 256" and "\<not> (48 \<le> n \<and> n \<le> 57)" and "\<not> (97 \<le> n \<and> n \<le> 102)"
    and "\<not> (65 \<le> n \<and> n \<le> 70)"
  shows "0x0f < reverseHexTable (of_nat n)"
proof -
  have "reverseHexTable (of_nat n) = 0xff"
    unfolding reverseHexTable_def byte_compare [OF assms(1)]
    using assms(2,3,4) by (simp only: if_False)
  then show ?thesis by simp
qed

lemma reverse_hex_digit:
  "((0x0f :: byte) < reverseHexTable (of_nat (of_char c))) = (\<not> is_hex_digit c)"
proof -
  let ?n = "of_char c :: nat"
  have n: "?n < 256" by (rule of_char_less)
  show ?thesis
  proof (cases "is_hex_digit c")
    case True
    then consider "48 \<le> ?n \<and> ?n \<le> 57" | "97 \<le> ?n \<and> ?n \<le> 102" | "65 \<le> ?n \<and> ?n \<le> 70"
      unfolding is_hex_digit_def Let_def by blast
    then have "\<not> 0x0f < reverseHexTable (of_nat ?n)"
    proof cases
      case 1
      with n show ?thesis by (rule reverse_digit)
    next
      case 2
      with n show ?thesis by (rule reverse_lower)
    next
      case 3
      with n show ?thesis by (rule reverse_upper)
    qed
    with True show ?thesis by simp
  next
    case False
    then have "0x0f < reverseHexTable (of_nat ?n)"
      unfolding is_hex_digit_def Let_def using n by (intro reverse_other) simp_all
    with False show ?thesis by simp
  qed
qed

lemma hex_Decode_valid:
  "even (length s) \<Longrightarrow> list_all is_hex_digit s \<Longrightarrow>
   snd (hex_Decode (bytes_of_string s)) = None
   \<and> length (fst (hex_Decode (bytes_of_string s))) = length s div 2"
proof (induction s rule: induct_list012)
  case 1
  then show ?case by (simp add: bytes_of_string_def)
next
  case (2 x)
  then show ?case by simp
next
  case (3 p q s)
  from "3.prems" have IH: "snd (hex_Decode (bytes_of_string s)) = None
      \<and> length (fst (hex_Decode (bytes_of_string s))) = length s div 2"
    by (intro "3.IH"(1)) simp_all
  have p: "\<not> 0x0f < reverseHexTable (of_nat (of_char p))"
    using "3.prems"(2) by (simp add: reverse_hex_digit)
  have q: "\<not> 0x0f < reverseHexTable (of_nat (of_char q))"
    using "3.prems"(2) by (simp add: reverse_hex_digit)
  have "bytes_of_string (p # q # s) = of_nat (of_char p) # of_nat (of_char q) # bytes_of_string s"
    by (simp add: bytes_of_string_def)
  moreover obtain d where "hex_Decode (bytes_of_string s) = (d, None)"
      and "length d = length s div 2"
    using IH by (cases "hex_Decode (bytes_of_string s)") simp
  ultimately show ?case
    using p q by (simp add: Let_def)
qed

lemma hex_Decode_invalid:
  "\<not> (even (length s) \<and> list_all is_hex_digit s) \<Longrightarrow>
   snd (hex_Decode (bytes_of_string s)) \<noteq> None"
proof (induction s rule: induct_list012)
  case 1
  then show ?case by simp
next
  case (2 x)
  then show ?case by (simp add: bytes_of_string_def)
next
  case (3 p q s)
  have b: "bytes_of_string (p # q # s) = of_nat (of_char p) # of_nat (of_char q) # bytes_of_string s"
    by (simp add: bytes_of_string_def)
  show ?case
  proof (cases "is_hex_digit p \<and> is_hex_digit q")
    case False
    then show ?thesis
      unfolding b by (auto simp: Let_def reverse_hex_digit)
  next
    case True
    with "3.prems" have "\<not> (even (length s) \<and> list_all is_hex_digit s)" by simp
    then have "snd (hex_Decode (bytes_of_string s)) \<noteq> None" by (rule "3.IH"(1))
    then obtain d e where "hex_Decode (bytes_of_string s) = (d, Some e)"
      by (cases "hex_Decode (bytes_of_string s)") auto
    with True show ?thesis
      unfolding b by (simp add: Let_def reverse_hex_digit)
  qed
qed

lemma hex_string_iff: "hex_string s = (snd (hex_DecodeString s) = None)"
proof (cases "hex_string s")
  case True
  then have "snd (hex_Decode (bytes_of_string s)) = None"
    using hex_Decode_valid [of s] by (simp add: hex_string_def)
  with True show ?thesis by (simp add: hex_DecodeString_def)
next
  case False
  then have "snd (hex_Decode (bytes_of_string s)) \<noteq> None"
    unfolding hex_string_def by (rule hex_Decode_invalid)
  with False show ?thesis by (simp add: hex_DecodeString_def)
qed

lemma hex_string_length:
  "hex_string s \<Longrightarrow> length (fst (hex_DecodeString s)) = length s div 2"
  using hex_Decode_valid [of s] by (simp add: hex_string_def hex_DecodeString_def)

lemma pack_one_binary:
  "binary_tag t \<Longrightarrow> pack_one cv t v =
     (case packBinaryWithPrefix v of
        (d, Some e) \<Rightarrow> ([], Some (TypeMismatch t e)) | (d, None) \<Rightarrow> (d, None))"
  by (auto simp: pack_one_def binary_tag_def pack_single pack_switch_def
        split: prod.splits option.splits)

lemma packBinary_string:
  assumes "hex_string s"
  shows "packBinaryWithPrefix (VString s) =
     (be32 (of_nat (length (fst (hex_DecodeString s)))) @ fst (hex_DecodeString s), None)"
proof -
  from assms have "snd (hex_DecodeString s) = None" by (simp add: hex_string_iff)
  then obtain d where "hex_DecodeString s = (d, None)"
    by (cases "hex_DecodeString s") simp
  then show ?thesis by (simp add: packBinaryWithPrefix_def PutUint32_make)
qed

lemma packBinary_bytes:
  "packBinaryWithPrefix (VBytes b) = (be32 (of_nat (length b)) @ b, None)"
  by (simp add: packBinaryWithPrefix_def hex_roundtrip PutUint32_make)

lemma be_value_nat32_mod: "be_value (be32 (of_nat n)) = n mod 2 ^ 32"
  by (simp add: be_value_be32 unat_of_nat)

lemma decode_4142: "hex_DecodeString ''4a4B'' = ([0x4A, 0x4B], None)"
  by (simp add: hex_DecodeString_def bytes_of_string_def reverseHexTable_def)

text \<open>
  C4, as the code has it. A binary argument whose value is a valid hexadecimal string
  packs to the number of decoded bytes, in four big-endian bytes, followed by the decoded
  bytes, and nothing after them; a string is valid exactly when the decoder accepts it. A
  byte slice packs to its length followed by the slice itself. The length is stored as a
  uint32: it is the number of bytes below \<open>2 ^ 32\<close> bytes, and that number modulo
  \<open>2 ^ 32\<close> in general.
\<close>

theorem binary_encoding:
  "(binary_tag t \<and> hex_string s \<longrightarrow>
      pack_one cv t (VString s)
        = (be32 (of_nat (length (fst (hex_DecodeString s)))) @ fst (hex_DecodeString s), None)
      \<and> length (fst (hex_DecodeString s)) = length s div 2)
   \<and> hex_string s = (snd (hex_DecodeString s) = None)
   \<and> (binary_tag t \<longrightarrow> pack_one cv t (VBytes b) = (be32 (of_nat (length b)) @ b, None))
   \<and> (n < 2 ^ 32 \<longrightarrow> be_value (be32 (of_nat n)) = n)
   \<and> be_value (be32 (of_nat n)) = n mod 2 ^ 32"
proof -
  have 1: "pack_one cv t (VString s)
        = (be32 (of_nat (length (fst (hex_DecodeString s)))) @ fst (hex_DecodeString s), None)
      \<and> length (fst (hex_DecodeString s)) = length s div 2"
    if "binary_tag t" "hex_string s"
    using that by (simp add: pack_one_binary packBinary_string hex_string_length)
  have 2: "hex_string s = (snd (hex_DecodeString s) = None)" by (rule hex_string_iff)
  have 3: "pack_one cv t (VBytes b) = (be32 (of_nat (length b)) @ b, None)" if "binary_tag t"
    using that by (simp add: pack_one_binary packBinary_bytes)
  have 4: "be_value (be32 (of_nat n)) = n" if "n < 2 ^ 32"
    using that by (rule be_value_nat32)
  have 5: "be_value (be32 (of_nat n)) = n mod 2 ^ 32" by (rule be_value_nat32_mod)
  from 1 2 3 4 5 show ?thesis by blast
qed

theorem binary_encoding_witness:
  "binary_tag ''binary'' \<and> hex_string ''4a4B''
   \<and> pack_one zero_impl ''binary'' (VString ''4a4B'') = ([0, 0, 0, 2] @ [0x4A, 0x4B], None)
   \<and> pack_one zero_impl ''binary'' (VBytes [0xDE, 0xAD, 0xBE]) = ([0, 0, 0, 3] @ [0xDE, 0xAD, 0xBE], None)
   \<and> be_value (be32 (of_nat 3)) = 3"
proof -
  have t: "binary_tag ''binary''" by (simp add: binary_tag_def)
  have h: "hex_string ''4a4B''" by (simp add: hex_string_def is_hex_digit_def)
  have b: "be32 2 = [0, 0, 0, 2]" "be32 3 = [0, 0, 0, 3]" by (simp_all add: be32_def)
  show ?thesis
    using binary_encoding [where cv = zero_impl and t = "''binary''" and s = "''4a4B''"
        and b = "[0xDE, 0xAD, 0xBE]" and n = 3] t h
    by (simp add: decode_4142 b)
qed

text \<open>
  The claim as stated fails: a slice of \<open>2 ^ 32\<close> bytes gets the length prefix 0.
\<close>

theorem binary_encoding_counterexample:
  "PackBOFArguments zero_impl [\<lparr>Type = ''binary'', Value = VBytes (replicate (2 ^ 32) 0)\<rparr>]
     = ([0, 0, 0, 0] @ replicate (2 ^ 32) 0, None)
   \<and> be_value [0, 0, 0, 0] = 0
   \<and> length (replicate (2 ^ 32) (0 :: byte)) = 2 ^ 32"
proof -
  have "be32 (of_nat (length (replicate (2 ^ 32) (0 :: byte)))) = [0, 0, 0, 0]"
    by (simp add: be32_def)
  then have "packBinaryWithPrefix (VBytes (replicate (2 ^ 32) 0))
      = ([0, 0, 0, 0] @ replicate (2 ^ 32) 0, None)"
    by (simp only: packBinary_bytes)
  then show ?thesis
    by (simp add: pack_single pack_switch_def be_value_def)
qed

section \<open>Wide strings\<close>

lemma pack_one_wide:
  "wide_tag t \<Longrightarrow> pack_one cv t v =
     (case packWideStringWithPrefix v of
        (d, Some e) \<Rightarrow> ([], Some (TypeMismatch t e)) | (d, None) \<Rightarrow> (d, None))"
  by (auto simp: pack_one_def wide_tag_def pack_single pack_switch_def
        split: prod.splits option.splits)

lemma units_ascii: "utf16_units (replicate n (CHR ''A'')) = replicate n 0x41"
proof -
  have b: "bytes_of_string (replicate n (CHR ''A'')) = replicate n 0x41"
    by (simp add: bytes_of_string_def)
  have r: "stringtoslicerune (replicate n 0x41) = replicate n 0x41"
    by (induction n) simp_all
  have u: "utf16_Encode (replicate n 0x41) = replicate n 0x41"
    by (induction n) simp_all
  show ?thesis by (simp only: utf16_units_def b r u)
qed

lemma units_grin:
  "utf16_units [CHR 0x41, CHR 0xC3, CHR 0xA9, CHR 0xF0, CHR 0x9F, CHR 0x98, CHR 0x80]
     = [0x41, 0xE9, 0xD83D, 0xDE00]"
  by (simp add: utf16_units_def bytes_of_string_def is_cont_def maxRune_def
        utf16_EncodeRune_def runeError_def)

text \<open>
  C3, as the code has it. A wide-string argument whose value is a string packs to the
  byte count \<open>2 * (n + 1)\<close> of its \<open>n\<close> UTF-16 code units and the terminator, in four
  big-endian bytes, followed by the code units low byte first, followed by two zero
  bytes. The count is stored as a uint32: it is the byte count for fewer than
  \<open>2 ^ 31 - 1\<close> code units, and the byte count modulo \<open>2 ^ 32\<close> in general.
\<close>

theorem wide_string_encoding:
  "(wide_tag t \<longrightarrow>
      pack_one cv t (VString s)
        = (be32 (of_nat (2 * (length (utf16_units s) + 1)))
             @ concat (map le16 (utf16_units s)) @ [0, 0], None))
   \<and> (length (utf16_units s) < 2 ^ 31 - 1 \<longrightarrow>
      be_value (be32 (of_nat (2 * (length (utf16_units s) + 1))))
        = 2 * (length (utf16_units s) + 1))
   \<and> be_value (be32 (of_nat n)) = n mod 2 ^ 32
   \<and> le_value (le16 u) = unat u"
proof -
  have 1: "pack_one cv t (VString s)
        = (be32 (of_nat (2 * (length (utf16_units s) + 1)))
             @ concat (map le16 (utf16_units s)) @ [0, 0], None)" if "wide_tag t"
    using that by (simp add: pack_one_wide packWide_eq)
  have 2: "be_value (be32 (of_nat (2 * (length (utf16_units s) + 1))))
        = 2 * (length (utf16_units s) + 1)" if "length (utf16_units s) < 2 ^ 31 - 1"
  proof -
    from that have "2 * (length (utf16_units s) + 1) < 2 ^ 32" by simp
    then show ?thesis by (rule be_value_nat32)
  qed
  have 3: "be_value (be32 (of_nat n)) = n mod 2 ^ 32" by (rule be_value_nat32_mod)
  have 4: "le_value (le16 u) = unat u" by (rule le_value_le16)
  from 1 2 3 4 show ?thesis by blast
qed

theorem wide_string_encoding_witness:
  "wide_tag ''wstring''
   \<and> length (utf16_units [CHR 0x41, CHR 0xC3, CHR 0xA9, CHR 0xF0, CHR 0x9F, CHR 0x98, CHR 0x80])
       < 2 ^ 31 - 1
   \<and> pack_one zero_impl ''wstring''
        (VString [CHR 0x41, CHR 0xC3, CHR 0xA9, CHR 0xF0, CHR 0x9F, CHR 0x98, CHR 0x80])
      = ([0, 0, 0, 0x0A] @ [0x41, 0, 0xE9, 0, 0x3D, 0xD8, 0, 0xDE] @ [0, 0], None)"
proof -
  have t: "wide_tag ''wstring''" by (simp add: wide_tag_def)
  have b: "be32 10 = [0, 0, 0, 0x0A]" by (simp add: be32_def)
  have l: "le16 0x41 = [0x41, 0]" "le16 0xE9 = [0xE9, 0]" "le16 0xD83D = [0x3D, 0xD8]"
    "le16 0xDE00 = [0, 0xDE]"
    by (simp_all add: le16_def)
  show ?thesis
    using wide_string_encoding [where cv = zero_impl and t = "''wstring''"
        and s = "[CHR 0x41, CHR 0xC3, CHR 0xA9, CHR 0xF0, CHR 0x9F, CHR 0x98, CHR 0x80]"] t
    by (simp add: units_grin b l)
qed

text \<open>
  The claim as stated fails: a string of \<open>2 ^ 31 - 1\<close> letters has a payload of
  \<open>2 ^ 32\<close> bytes and gets the length prefix 0.
\<close>

theorem wide_string_encoding_counterexample:
  "length (utf16_units (replicate (2 ^ 31 - 1) (CHR ''A''))) = 2 ^ 31 - 1
   \<and> take 4 (fst (PackBOFArguments zero_impl
        [\<lparr>Type = ''wstring'', Value = VString (replicate (2 ^ 31 - 1) (CHR ''A''))\<rparr>]))
      = [0, 0, 0, 0]
   \<and> be_value [0, 0, 0, 0] = 0"
proof -
  let ?s = "replicate (2 ^ 31 - 1) (CHR ''A'')"
  have len: "length (utf16_units ?s) = 2 ^ 31 - 1"
    by (simp only: units_ascii length_replicate)
  have "be32 (of_nat (2 * (length (utf16_units ?s) + 1))) = [0, 0, 0, 0]"
    unfolding len by (simp add: be32_def)
  then have "packWideStringWithPrefix (VString ?s)
      = ([0, 0, 0, 0] @ concat (map le16 (utf16_units ?s)) @ [0, 0], None)"
    by (simp only: packWide_eq)
  then have "take 4 (fst (PackBOFArguments zero_impl [\<lparr>Type = ''wstring'', Value = VString ?s\<rparr>]))
      = [0, 0, 0, 0]"
    by (simp add: pack_single pack_switch_def)
  with len show ?thesis by (simp add: be_value_def)
qed

end
